theory Spec2Isabelle
  imports Main "HOL-Library.Word"
begin

section \<open>wangle/ssl/SSLUtil.h: data model\<close>

type_synonym uint8 = "8 word"
type_synonym int32 = "32 word"
type_synonym int64 = "64 word"
type_synonym uint64 = "64 word"
type_synonym addr = nat

subsection \<open>SSLResumeEnum (lines 22-27)\<close>

text \<open>
  \<^verbatim>\<open>enum class SSLResumeEnum : uint8_t\<close>. The enumerators are listed in the order of the
  declaration; the value each one is given there is \<open>SSLResumeEnum_value\<close>.
\<close>

datatype SSLResumeEnum = HANDSHAKE | RESUME_SESSION_ID | RESUME_TICKET | NA

fun SSLResumeEnum_value :: "SSLResumeEnum \<Rightarrow> uint8" where
  "SSLResumeEnum_value HANDSHAKE = 0"
| "SSLResumeEnum_value RESUME_SESSION_ID = 1"
| "SSLResumeEnum_value RESUME_TICKET = 3"
| "SSLResumeEnum_value NA = 2"

subsection \<open>getResumeState (lines 154-161)\<close>

text \<open>
  The function reads the socket through two accessors of \<^verbatim>\<open>folly::AsyncSSLSocket\<close>
  only. The socket is the record of what these two accessors answer.
\<close>

record AsyncSSLSocket =
  getSSLSessionReused :: bool
  sessionIDResumed :: bool

definition getResumeState :: "AsyncSSLSocket \<Rightarrow> SSLResumeEnum" where
  "getResumeState sslSocket =
     (if getSSLSessionReused sslSocket
      then (if sessionIDResumed sslSocket then RESUME_SESSION_ID else RESUME_TICKET)
      else HANDSHAKE)"

subsection \<open>SSLErrorEnum and SSLException (lines 29-50)\<close>

datatype SSLErrorEnum = NO_ERROR | TIMEOUT | DROPPED

text \<open>
  The three private fields \<^verbatim>\<open>error_\<close>, \<^verbatim>\<open>latency_\<close> and \<^verbatim>\<open>bytesRead_\<close>. The latency is the
  signed 64-bit tick count of a \<^verbatim>\<open>std::chrono::milliseconds\<close>. The message of the
  \<^verbatim>\<open>std::runtime_error\<close> base is not part of the model.
\<close>

record SSLException =
  m_error :: SSLErrorEnum
  m_latency :: int64
  m_bytesRead :: uint64

text \<open>
  Modelled from the spec: the constructor \<^verbatim>\<open>SSLException(error, latency, bytesRead)\<close>. The
  header declares it (lines 37-40) and its definition is outside the header. The spec says
  of it: "constructed with {category, latency, bytesRead}", the three values the accessors
  report.
\<close>

definition SSLException_new :: "SSLErrorEnum \<Rightarrow> int64 \<Rightarrow> uint64 \<Rightarrow> SSLException" where
  "SSLException_new error latency bytesRead =
     \<lparr>m_error = error, m_latency = latency, m_bytesRead = bytesRead\<rparr>"

definition getError :: "SSLException \<Rightarrow> SSLErrorEnum" where
  "getError e = m_error e"

definition getLatency :: "SSLException \<Rightarrow> int64" where
  "getLatency e = m_latency e"

definition getBytesRead :: "SSLException \<Rightarrow> uint64" where
  "getBytesRead e = m_bytesRead e"

text \<open>
  The public members of the class are the constructor and the three accessors, all
  \<^verbatim>\<open>const\<close>. A call of an accessor is a reading together with the object after the call.
\<close>

datatype accessor = GetError | GetLatency | GetBytesRead

datatype reading = Error SSLErrorEnum | Latency int64 | BytesRead uint64

fun invoke :: "accessor \<Rightarrow> SSLException \<Rightarrow> reading \<times> SSLException" where
  "invoke GetError e = (Error (getError e), e)"
| "invoke GetLatency e = (Latency (getLatency e), e)"
| "invoke GetBytesRead e = (BytesRead (getBytesRead e), e)"

fun invoke_all :: "accessor list \<Rightarrow> SSLException \<Rightarrow> SSLException" where
  "invoke_all [] e = e"
| "invoke_all (a # as) e = invoke_all as (snd (invoke a e))"

section \<open>Allocation of ex_data indices (lines 54-73 and 125-135)\<close>

subsection \<open>The shared state and the three functions\<close>

text \<open>
  Each of \<^verbatim>\<open>getSSLCtxExIndex\<close>, \<^verbatim>\<open>getRSAExIndex\<close> and \<^verbatim>\<open>getSSLSessionExStrIndex\<close> asks one
  function of the TLS library for a new index: \<^verbatim>\<open>SSL_CTX_get_ex_new_index\<close>,
  \<^verbatim>\<open>RSA_get_ex_new_index\<close>, \<^verbatim>\<open>SSL_SESSION_get_ex_new_index\<close>. The library is not part of
  the repository. It is a parameter \<open>nx\<close> here: given which of the three functions is
  called and the library's state, it answers an \<^verbatim>\<open>int\<close> and the library's next state. The
  library reports failure by a negative answer. The other arguments of the three calls are
  constants; for the session index they are the two callbacks \<^verbatim>\<open>exDataStdStringDup\<close> and
  \<^verbatim>\<open>exDataStdStringFree\<close> modelled below.

  The storage behind the \<^verbatim>\<open>int* pindex\<close> of the callers is \<open>mem\<close>, from addresses to 32-bit
  values read as signed. \<open>requests\<close> is a log, kept for the proofs only, of every call of
  the library and of its answer, in the order of the calls.
\<close>

datatype slot_kind = SSL_CTX_index | RSA_index | SSL_SESSION_index

record 'f world =
  mem :: "addr \<Rightarrow> int32"
  facility :: 'f
  requests :: "(slot_kind \<times> int32) list"

type_synonym 'f get_ex_new_index = "slot_kind \<Rightarrow> 'f \<Rightarrow> int32 \<times> 'f"

text \<open>The assignment \<^verbatim>\<open>*pindex = ..._get_ex_new_index(...)\<close>.\<close>

definition request_index ::
  "'f get_ex_new_index \<Rightarrow> slot_kind \<Rightarrow> addr \<Rightarrow> 'f world \<Rightarrow> 'f world" where
  "request_index nx k pindex w =
     (let (r, f') = nx k (facility w)
      in w\<lparr>mem := (mem w)(pindex := r), facility := f', requests := requests w @ [(k, r)]\<rparr>)"

text \<open>
  The three functions return \<^verbatim>\<open>void\<close>, throw nothing and do not look at the library's
  answer: a call is a total function from the state before to the state after. The
  \<^verbatim>\<open>lock_guard\<close> changes nothing for a call that runs alone; the interleaving of calls is
  modelled further below.
\<close>

definition getSSLCtxExIndex :: "'f get_ex_new_index \<Rightarrow> addr \<Rightarrow> 'f world \<Rightarrow> 'f world" where
  "getSSLCtxExIndex nx pindex w =
     (if sint (mem w pindex) < 0 then request_index nx SSL_CTX_index pindex w else w)"

definition getRSAExIndex :: "'f get_ex_new_index \<Rightarrow> addr \<Rightarrow> 'f world \<Rightarrow> 'f world" where
  "getRSAExIndex nx pindex w =
     (if sint (mem w pindex) < 0 then request_index nx RSA_index pindex w else w)"

definition getSSLSessionExStrIndex ::
  "'f get_ex_new_index \<Rightarrow> addr \<Rightarrow> 'f world \<Rightarrow> 'f world" where
  "getSSLSessionExStrIndex nx pindex w =
     (if sint (mem w pindex) < 0 then request_index nx SSL_SESSION_index pindex w else w)"

fun acquire :: "'f get_ex_new_index \<Rightarrow> slot_kind \<Rightarrow> addr \<Rightarrow> 'f world \<Rightarrow> 'f world" where
  "acquire nx SSL_CTX_index = getSSLCtxExIndex nx"
| "acquire nx RSA_index = getRSAExIndex nx"
| "acquire nx SSL_SESSION_index = getSSLSessionExStrIndex nx"

subsection \<open>Calls that run at the same time\<close>

text \<open>
  Any number of calls, numbered by \<open>nat\<close>, each of one of the three functions on one
  storage address (\<open>calls c\<close>). A call goes through the statements of its function:
  \<^item> \<open>Entering\<close>: at the \<^verbatim>\<open>lock_guard\<close>, waiting for \<^verbatim>\<open>sIndexLock_\<close>;
  \<^item> \<open>Testing\<close>: holding the lock, at \<^verbatim>\<open>if (*pindex < 0)\<close>;
  \<^item> \<open>Requesting\<close>: the test was true, at the assignment to \<^verbatim>\<open>*pindex\<close>;
  \<^item> \<open>Leaving\<close>: at the end of the body, where the guard releases the lock;
  \<^item> \<open>Returned\<close>.
  \<open>step c\<close> lets call \<open>c\<close> execute its next statement; a call that waits for a lock held
  by another call does not move. A schedule is the list of the calls that step, in order:
  every interleaving of the calls, from any number of threads, is a schedule. \<open>seen c\<close> is
  the value that call \<open>c\<close> leaves in its storage when it returns. \<open>assigned\<close> is a log, kept
  for the proofs only, of the assignments to \<^verbatim>\<open>*pindex\<close>: the address and the value it got, in
  order.
\<close>

datatype pc = Entering | Testing | Requesting | Leaving | Returned

record 'f system =
  shared :: "'f world"
  sIndexLock :: "nat option"
  pcs :: "nat \<Rightarrow> pc"
  seen :: "nat \<Rightarrow> int32 option"
  assigned :: "(addr \<times> int32) list"

type_synonym calls = "nat \<Rightarrow> slot_kind \<times> addr"

definition step :: "'f get_ex_new_index \<Rightarrow> calls \<Rightarrow> nat \<Rightarrow> 'f system \<Rightarrow> 'f system" where
  "step nx calls c s =
     (case pcs s c of
        Entering \<Rightarrow>
          (case sIndexLock s of
             None \<Rightarrow> s\<lparr>sIndexLock := Some c, pcs := (pcs s)(c := Testing)\<rparr>
           | Some _ \<Rightarrow> s)
      | Testing \<Rightarrow>
          (if sint (mem (shared s) (snd (calls c))) < 0
           then s\<lparr>pcs := (pcs s)(c := Requesting)\<rparr>
           else s\<lparr>pcs := (pcs s)(c := Leaving)\<rparr>)
      | Requesting \<Rightarrow>
          (let w = request_index nx (fst (calls c)) (snd (calls c)) (shared s)
           in s\<lparr>shared := w, pcs := (pcs s)(c := Leaving),
                assigned := assigned s @ [(snd (calls c), mem w (snd (calls c)))]\<rparr>)
      | Leaving \<Rightarrow>
          s\<lparr>sIndexLock := None, pcs := (pcs s)(c := Returned),
            seen := (seen s)(c \<mapsto> mem (shared s) (snd (calls c)))\<rparr>
      | Returned \<Rightarrow> s)"

fun run :: "'f get_ex_new_index \<Rightarrow> calls \<Rightarrow> nat list \<Rightarrow> 'f system \<Rightarrow> 'f system" where
  "run nx calls [] s = s"
| "run nx calls (c # cs) s = run nx calls cs (step nx calls c s)"


text \<open>
  The answers the library gave for one kind of index, and those among them that are an
  index (not negative): the allocations.
\<close>

definition requests_of :: "slot_kind \<Rightarrow> 'f world \<Rightarrow> int32 list" where
  "requests_of k w = map snd (filter (\<lambda>e. fst e = k) (requests w))"


definition in_critical :: "'f system \<Rightarrow> nat \<Rightarrow> bool" where
  "in_critical s c = (pcs s c = Testing \<or> pcs s c = Requesting \<or> pcs s c = Leaving)"




subsection \<open>Invariants of the interleaved calls\<close>

text \<open>
  What holds in every state that the calls reach from \<open>init\<close>:
  \<^item> \<open>lock_inv\<close>: a call between taking and releasing the lock is the holder of the lock;
  \<^item> \<open>requesting_inv\<close>: a call at the assignment has a negative value in its storage;
  \<^item> \<open>allocations_inv\<close>: per kind at most one allocation was made, and if one was made
    the storage of the kind holds an index;
  \<^item> \<open>seen_inv\<close>: an index that a call found on return is still in its storage;
  \<^item> \<open>holder_inv\<close>: the holder of the lock is between taking and releasing it;
  \<^item> \<open>returned_inv\<close>: a call that returned has left a value in \<open>seen\<close>;
  \<^item> \<open>assigned_inv\<close>: an address either got no index so far, and then holds its
    initial value if that is an index and a negative value otherwise, or it was negative
    initially, got one index and holds it;
  \<^item> \<open>log_inv\<close>: the assigned values are the answers of the library, in order;
  \<^item> \<open>facility_ok_inv\<close>, for a library that never fails: every answer so far is an index,
    a call about to release the lock has an index in its storage, and every call that
    returned found one.
\<close>

definition lock_inv :: "'f system \<Rightarrow> bool" where
  "lock_inv s = (\<forall>c. in_critical s c \<longrightarrow> sIndexLock s = Some c)"

definition requesting_inv :: "calls \<Rightarrow> 'f system \<Rightarrow> bool" where
  "requesting_inv calls s =
     (\<forall>c. pcs s c = Requesting \<longrightarrow> sint (mem (shared s) (snd (calls c))) < 0)"


definition seen_inv :: "calls \<Rightarrow> 'f system \<Rightarrow> bool" where
  "seen_inv calls s =
     (\<forall>c v. seen s c = Some v \<longrightarrow> 0 \<le> sint v \<longrightarrow> mem (shared s) (snd (calls c)) = v)"





definition base_inv :: "calls \<Rightarrow> 'f system \<Rightarrow> bool" where
  "base_inv calls s = (lock_inv s \<and> requesting_inv calls s \<and> seen_inv calls s)"



subsection \<open>Concrete libraries and calls\<close>


definition exhausted_facility :: "unit get_ex_new_index" where
  "exhausted_facility k u = (- 1, u)"



definition unallocated :: "addr \<Rightarrow> int32" where
  "unallocated a = - 1"





definition world0 :: "unit world" where
  "world0 = \<lparr>mem = unallocated, facility = (), requests = []\<rparr>"

section \<open>The string stored in a session's ex_data slot (lines 91-123)\<close>

subsection \<open>Memory\<close>

text \<open>
  The two callbacks work on pointers. Memory has two parts:
  \<^item> \<open>strs\<close>: the \<^verbatim>\<open>std::string\<close> objects made by \<^verbatim>\<open>new\<close>. The address of an object is its
    position in the list; \<open>None\<close> at a position is an object that was deleted. \<^verbatim>\<open>new\<close> adds
    an object at the end, so at an address no object has or had; it is taken to succeed.
  \<^item> \<open>words\<close>: the pointer-sized words that a \<^verbatim>\<open>void**\<close> can point to, each holding a
    \<^verbatim>\<open>std::string*\<close>; \<open>None\<close> as the content of a word is the null pointer.
  \<open>stored\<close> is a log, kept for the proofs only, of the addresses of the words written, in
  order. Reading through a pointer to no word or to no live string, and deleting what is
  not a live string, is undefined behaviour in C++; it is the value \<open>Inl\<close> of a fault here.
\<close>

type_synonym str_ptr = "addr option"

datatype fault = Invalid_Deref | Invalid_Delete

record cxx_heap =
  strs :: "string option list"
  words :: "addr \<rightharpoonup> str_ptr"
  stored :: "addr list"

definition load_str :: "cxx_heap \<Rightarrow> addr \<Rightarrow> string option" where
  "load_str h a = (if a < length (strs h) then strs h ! a else None)"

definition new_string :: "cxx_heap \<Rightarrow> string \<Rightarrow> addr \<times> cxx_heap" where
  "new_string h s = (length (strs h), h\<lparr>strs := strs h @ [Some s]\<rparr>)"

definition delete_string :: "cxx_heap \<Rightarrow> addr \<Rightarrow> fault + cxx_heap" where
  "delete_string h a =
     (case load_str h a of
        None \<Rightarrow> Inl Invalid_Delete
      | Some _ \<Rightarrow> Inr (h\<lparr>strs := (strs h)[a := None]\<rparr>))"

definition store_word :: "cxx_heap \<Rightarrow> addr \<Rightarrow> str_ptr \<Rightarrow> cxx_heap" where
  "store_word h p v = h\<lparr>words := (words h)(p \<mapsto> v), stored := stored h @ [p]\<rparr>"

text \<open>
  Assigning to a live string, to say what mutating one of two strings does to the other.
  The callbacks do not use it.
\<close>

definition assign_string :: "cxx_heap \<Rightarrow> addr \<Rightarrow> string \<Rightarrow> fault + cxx_heap" where
  "assign_string h a t =
     (case load_str h a of
        None \<Rightarrow> Inl Invalid_Deref
      | Some _ \<Rightarrow> Inr (h\<lparr>strs := (strs h)[a := Some t]\<rparr>))"

subsection \<open>exDataStdStringDup (lines 92-109) and exDataStdStringFree (lines 112-123)\<close>

text \<open>
  Of the six parameters of \<^verbatim>\<open>exDataStdStringDup\<close> only \<^verbatim>\<open>ptr\<close> is used. It is cast to
  \<^verbatim>\<open>void**\<close>: the address of the word in which the library has put the source slot's value
  and from which it takes the value for the slot of the copy. The result is the return
  code and the memory after the call.
\<close>

definition exDataStdStringDup :: "cxx_heap \<Rightarrow> addr \<Rightarrow> fault + (int32 \<times> cxx_heap)" where
  "exDataStdStringDup h ptr =
     (case words h ptr of
        None \<Rightarrow> Inl Invalid_Deref
      | Some strData \<Rightarrow>
          (case strData of
             None \<Rightarrow> Inr (1, h)
           | Some a \<Rightarrow>
               (case load_str h a of
                  None \<Rightarrow> Inl Invalid_Deref
                | Some s \<Rightarrow>
                    (let (a', h') = new_string h s
                     in Inr (1, store_word h' ptr (Some a'))))))"

text \<open>Of the six parameters of \<^verbatim>\<open>exDataStdStringFree\<close> only \<^verbatim>\<open>ptr\<close>, the slot's value, is used.\<close>

definition exDataStdStringFree :: "cxx_heap \<Rightarrow> str_ptr \<Rightarrow> fault + cxx_heap" where
  "exDataStdStringFree h ptr =
     (case ptr of
        None \<Rightarrow> Inr h
      | Some strPtr \<Rightarrow> delete_string h strPtr)"

text \<open>A sequence of calls of the free callback, stopping at the first fault.\<close>

fun free_sequence :: "cxx_heap \<Rightarrow> str_ptr list \<Rightarrow> fault + cxx_heap" where
  "free_sequence h [] = Inr h"
| "free_sequence h (p # ps) =
     (case exDataStdStringFree h p of
        Inl e \<Rightarrow> Inl e
      | Inr h' \<Rightarrow> free_sequence h' ps)"

fun non_null :: "str_ptr list \<Rightarrow> addr list" where
  "non_null [] = []"
| "non_null (None # ps) = non_null ps"
| "non_null (Some a # ps) = a # non_null ps"

text \<open>
  The inputs on which \<^verbatim>\<open>exDataStdStringDup\<close> has defined behaviour: \<open>ptr\<close> points to a word,
  and the word holds the null pointer or the address of a live string.
\<close>

definition dup_input_ok :: "cxx_heap \<Rightarrow> addr \<Rightarrow> bool" where
  "dup_input_ok h ptr =
     (case words h ptr of
        None \<Rightarrow> False
      | Some None \<Rightarrow> True
      | Some (Some a) \<Rightarrow> load_str h a \<noteq> None)"

definition dup_result :: "cxx_heap \<Rightarrow> addr \<Rightarrow> string \<Rightarrow> cxx_heap" where
  "dup_result h ptr s =
     h\<lparr>strs := strs h @ [Some s],
       words := (words h)(ptr \<mapsto> Some (length (strs h))),
       stored := stored h @ [ptr]\<rparr>"

text \<open>
  A memory with two live strings and a deleted one; word 7 holds the address of the
  string at 2, word 8 the null pointer.
\<close>

definition heap0 :: cxx_heap where
  "heap0 =
     \<lparr>strs = [Some ''abc'', None, Some ''tag''], words = [7 \<mapsto> Some 2, 8 \<mapsto> None],
      stored = []\<rparr>"

section \<open>Certificate fields (lines 163-177)\<close>

text \<open>
  \<^verbatim>\<open>getCommonName\<close> and \<^verbatim>\<open>getSubjectAltName\<close> are declared in the header and defined outside
  it. A parsed certificate is what the spec reads from it: the subject, if there is one, as
  a list of attributes by object identifier, and the extensions by object identifier. An
  attribute value is text or not decodable as text. The value of an extension decodes to a
  list of general names or does not decode; a general name has a textual form or is
  malformed.
\<close>

type_synonym oid = "nat list"

datatype attribute_value = Text string | Not_text

datatype general_name = Name string | Malformed

datatype extension_value = General_names "general_name list" | Undecodable

record X509 =
  subject :: "(oid \<times> attribute_value) list option"
  extensions :: "(oid \<times> extension_value) list"

definition NID_commonName :: oid where
  "NID_commonName = [2, 5, 4, 3]"

definition NID_subject_alt_name :: oid where
  "NID_subject_alt_name = [2, 5, 29, 17]"

text \<open>
  Modelled from the spec: the body of \<^verbatim>\<open>getCommonName\<close>, which is not in the header. The spec
  says: "locate the certificate's subject name field, search it for the Common Name
  attribute, and if present and decodable as text, return its value; otherwise return
  absent." The search takes the first attribute with the object identifier.
\<close>

definition getCommonName :: "X509 \<Rightarrow> string option" where
  "getCommonName cert =
     (case subject cert of
        None \<Rightarrow> None
      | Some attributes \<Rightarrow>
          (case map_of attributes NID_commonName of
             None \<Rightarrow> None
           | Some Not_text \<Rightarrow> None
           | Some (Text cn) \<Rightarrow> Some cn))"

fun text_forms :: "general_name list \<Rightarrow> string list" where
  "text_forms [] = []"
| "text_forms (Name s # gs) = s # text_forms gs"
| "text_forms (Malformed # gs) = text_forms gs"

text \<open>
  Modelled from the spec: the body of \<^verbatim>\<open>getSubjectAltName\<close>, which is not in the header. The
  spec says: "locate the Subject Alternative Name extension by its well-known object
  identifier; if absent, return absent (distinct from "present but empty"). If present,
  decode it as a list of general-name entries and return the textual form of each entry,
  preserving the extension's original ordering. Malformed individual entries should be
  skipped rather than aborting the whole extraction, unless the entire extension is
  undecodable, in which case return absent."
\<close>

definition getSubjectAltName :: "X509 \<Rightarrow> string list option" where
  "getSubjectAltName cert =
     (case map_of (extensions cert) NID_subject_alt_name of
        None \<Rightarrow> None
      | Some Undecodable \<Rightarrow> None
      | Some (General_names names) \<Rightarrow> Some (text_forms names))"

text \<open>
  Two certificates: one whose subject holds a country and a common name and whose
  alternative names are two DNS names around a malformed entry; one with no subject and no
  extension.
\<close>

definition cert_example :: X509 where
  "cert_example =
     \<lparr>subject = Some [([2, 5, 4, 6], Text ''US''), (NID_commonName, Text ''example.com'')],
      extensions =
        [(NID_subject_alt_name,
          General_names [Name ''DNS:a.com'', Malformed, Name ''DNS:b.com''])]\<rparr>"

definition cert_bare :: X509 where
  "cert_bare = \<lparr>subject = None, extensions = []\<rparr>"

section \<open>Resume state\<close>

text \<open>
  C2. The numeric encoding of the resume-state enum is exactly HANDSHAKE = 0,
  RESUME_SESSION_ID = 1, NA = 2, RESUME_TICKET = 3: the four values are pairwise different,
  they are the numbers 0 to 3, and NA lies strictly between the two resumption kinds, so
  that the order of the values is not the order of the declaration.
\<close>

theorem SSLResumeEnum_encoding:
  "SSLResumeEnum_value HANDSHAKE = 0
   \<and> SSLResumeEnum_value RESUME_SESSION_ID = 1
   \<and> SSLResumeEnum_value NA = 2
   \<and> SSLResumeEnum_value RESUME_TICKET = 3
   \<and> map (unat \<circ> SSLResumeEnum_value) [HANDSHAKE, RESUME_SESSION_ID, NA, RESUME_TICKET]
       = [0, 1, 2, 3]
   \<and> inj SSLResumeEnum_value
   \<and> SSLResumeEnum_value RESUME_SESSION_ID < SSLResumeEnum_value NA
   \<and> SSLResumeEnum_value NA < SSLResumeEnum_value RESUME_TICKET"
proof -
  have "inj SSLResumeEnum_value"
  proof (rule injI)
    fix x y
    assume "SSLResumeEnum_value x = SSLResumeEnum_value y"
    then show "x = y" by (cases x; cases y) simp_all
  qed
  then show ?thesis by simp
qed

text \<open>
  C3. The resume classifier is a total function of the two flags: it returns HANDSHAKE
  whenever the session was not reused, whatever the second flag; RESUME_SESSION_ID when
  both flags are true; RESUME_TICKET when the session was reused and not by session id.
\<close>

theorem getResumeState_classifies:
  "getResumeState \<lparr>getSSLSessionReused = False, sessionIDResumed = b\<rparr> = HANDSHAKE
   \<and> getResumeState \<lparr>getSSLSessionReused = True, sessionIDResumed = True\<rparr> = RESUME_SESSION_ID
   \<and> getResumeState \<lparr>getSSLSessionReused = True, sessionIDResumed = False\<rparr> = RESUME_TICKET"
  by (simp add: getResumeState_def)

section \<open>Lemmas on the allocation of indices\<close>

lemma request_index_simps:
  "mem (request_index nx k p w) = (mem w)(p := fst (nx k (facility w)))"
  "requests (request_index nx k p w) = requests w @ [(k, fst (nx k (facility w)))]"
  by (simp_all add: request_index_def split_beta)

lemma requests_of_request_index:
  "requests_of k' (request_index nx k p w) =
     (if k' = k then requests_of k' w @ [fst (nx k (facility w))] else requests_of k' w)"
  by (simp add: requests_of_def request_index_simps)


text \<open>What a step changes, by the position of the stepping call.\<close>

lemma step_Entering_free:
  "pcs s c = Entering \<Longrightarrow> sIndexLock s = None \<Longrightarrow>
     step nx calls c s = s\<lparr>sIndexLock := Some c, pcs := (pcs s)(c := Testing)\<rparr>"
  by (simp add: step_def)

lemma step_Entering_held:
  "pcs s c = Entering \<Longrightarrow> sIndexLock s = Some d \<Longrightarrow> step nx calls c s = s"
  by (simp add: step_def)

lemma step_Testing:
  "pcs s c = Testing \<Longrightarrow>
     step nx calls c s =
       s\<lparr>pcs := (pcs s)(c := if sint (mem (shared s) (snd (calls c))) < 0
                             then Requesting else Leaving)\<rparr>"
  by (simp add: step_def)

lemma step_Requesting:
  "pcs s c = Requesting \<Longrightarrow>
     step nx calls c s =
       s\<lparr>shared := request_index nx (fst (calls c)) (snd (calls c)) (shared s),
         pcs := (pcs s)(c := Leaving),
         assigned := assigned s @ [(snd (calls c), fst (nx (fst (calls c)) (facility (shared s))))]\<rparr>"
  by (simp add: step_def request_index_simps)

lemma step_Leaving:
  "pcs s c = Leaving \<Longrightarrow>
     step nx calls c s =
       s\<lparr>sIndexLock := None, pcs := (pcs s)(c := Returned),
         seen := (seen s)(c \<mapsto> mem (shared s) (snd (calls c)))\<rparr>"
  by (simp add: step_def)

lemma step_Returned: "pcs s c = Returned \<Longrightarrow> step nx calls c s = s"
  by (simp add: step_def)

lemma step_cases [consumes 0, case_names Enter Blocked Test Request Leave Return]:
  assumes "\<lbrakk>pcs s c = Entering; sIndexLock s = None\<rbrakk> \<Longrightarrow> P"
    and "\<And>d. \<lbrakk>pcs s c = Entering; sIndexLock s = Some d\<rbrakk> \<Longrightarrow> P"
    and "pcs s c = Testing \<Longrightarrow> P"
    and "pcs s c = Requesting \<Longrightarrow> P"
    and "pcs s c = Leaving \<Longrightarrow> P"
    and "pcs s c = Returned \<Longrightarrow> P"
  shows P
  using assms by (cases "pcs s c"; cases "sIndexLock s") auto

lemma in_critical_pcs_update:
  "in_critical (s\<lparr>pcs := (pcs t)(c := x)\<rparr>) d =
     (if d = c then x = Testing \<or> x = Requesting \<or> x = Leaving else in_critical t d)"
  by (simp add: in_critical_def)

lemma in_critical_other_update [simp]:
  "in_critical (s\<lparr>sIndexLock := l\<rparr>) d = in_critical s d"
  "in_critical (s\<lparr>shared := w\<rparr>) d = in_critical s d"
  "in_critical (s\<lparr>seen := e\<rparr>) d = in_critical s d"
  "in_critical (s\<lparr>assigned := g\<rparr>) d = in_critical s d"
  by (simp_all add: in_critical_def)

lemma critical_unique:
  assumes "lock_inv s" and "in_critical s c" and "in_critical s d"
  shows "c = d"
proof -
  have "sIndexLock s = Some c"
    using assms(1,2) unfolding lock_inv_def by blast
  moreover have "sIndexLock s = Some d"
    using assms(1,3) unfolding lock_inv_def by blast
  ultimately show ?thesis by simp
qed

lemma lock_inv_step:
  assumes "lock_inv s"
  shows "lock_inv (step nx calls c s)"
proof (cases rule: step_cases [of s c])
  case Enter
  have "\<not> in_critical s d" for d
    using assms Enter(2) by (auto simp: lock_inv_def)
  then show ?thesis using Enter
    by (simp add: step_Entering_free lock_inv_def in_critical_pcs_update)
next
  case (Blocked d)
  then show ?thesis using assms by (simp add: step_Entering_held)
next
  case Test
  then have c: "in_critical s c" by (simp add: in_critical_def)
  then have "sIndexLock s = Some c" using assms by (simp add: lock_inv_def)
  moreover have "d = c" if "in_critical s d" for d
    using critical_unique [OF assms that c] .
  ultimately show ?thesis using Test
    by (auto simp: step_Testing lock_inv_def in_critical_pcs_update)
next
  case Request
  then have c: "in_critical s c" by (simp add: in_critical_def)
  then have "sIndexLock s = Some c" using assms by (simp add: lock_inv_def)
  moreover have "d = c" if "in_critical s d" for d
    using critical_unique [OF assms that c] .
  ultimately show ?thesis using Request
    by (auto simp: step_Requesting lock_inv_def in_critical_pcs_update)
next
  case Leave
  then have c: "in_critical s c" by (simp add: in_critical_def)
  have "d = c" if "in_critical s d" for d
    using critical_unique [OF assms that c] .
  then show ?thesis using Leave
    by (auto simp: step_Leaving lock_inv_def in_critical_pcs_update)
next
  case Return
  then show ?thesis using assms by (simp add: step_Returned)
qed

lemma storage_differs:
  fixes m :: "addr \<Rightarrow> int32"
  assumes "sint (m a) < 0" and "0 \<le> sint (m b)"
  shows "a \<noteq> b"
proof
  assume "a = b"
  then have "sint (m b) < 0" using assms(1) by simp
  then show False using assms(2) by linarith
qed

lemmas step_idle = step_Entering_free step_Entering_held step_Testing step_Leaving step_Returned

lemma mem_step:
  assumes "requesting_inv calls s" and "0 \<le> sint (mem (shared s) p)"
  shows "mem (shared (step nx calls c s)) p = mem (shared s) p"
proof (cases rule: step_cases [of s c])
  case Request
  then have "sint (mem (shared s) (snd (calls c))) < 0"
    using assms(1) by (simp add: requesting_inv_def)
  then have "snd (calls c) \<noteq> p" using assms(2) by (rule storage_differs)
  then show ?thesis using Request by (simp add: step_Requesting request_index_simps)
next
  case Enter
  then show ?thesis by (simp add: step_Entering_free)
next
  case (Blocked d)
  then show ?thesis by (simp add: step_Entering_held)
next
  case Test
  then show ?thesis by (simp add: step_Testing)
next
  case Leave
  then show ?thesis by (simp add: step_Leaving)
next
  case Return
  then show ?thesis by (simp add: step_Returned)
qed

lemma requesting_inv_step:
  assumes "lock_inv s" and "requesting_inv calls s"
  shows "requesting_inv calls (step nx calls c s)"
proof (cases rule: step_cases [of s c])
  case Enter
  then show ?thesis using assms(2)
    by (simp add: step_Entering_free requesting_inv_def)
next
  case (Blocked d)
  then show ?thesis using assms(2) by (simp add: step_Entering_held)
next
  case Test
  then show ?thesis using assms(2)
    by (simp add: step_Testing requesting_inv_def)
next
  case Request
  have "pcs s d \<noteq> Requesting" if "d \<noteq> c" for d
    using critical_unique [OF assms(1), of d c] that Request by (auto simp: in_critical_def)
  then show ?thesis using Request
    by (simp add: step_Requesting requesting_inv_def)
next
  case Leave
  then show ?thesis using assms(2)
    by (simp add: step_Leaving requesting_inv_def)
next
  case Return
  then show ?thesis using assms(2) by (simp add: step_Returned)
qed

lemma requests_of_step:
  assumes "requesting_inv calls s" and "0 \<le> sint (mem (shared s) p)"
    and "\<forall>c. fst (calls c) = k \<longrightarrow> snd (calls c) = p"
  shows "requests_of k (shared (step nx calls c s)) = requests_of k (shared s)"
proof (cases rule: step_cases [of s c])
  case Request
  then have "sint (mem (shared s) (snd (calls c))) < 0"
    using assms(1) by (simp add: requesting_inv_def)
  then have "snd (calls c) \<noteq> p" using assms(2) by (rule storage_differs)
  then have "fst (calls c) \<noteq> k" using assms(3) by blast
  then show ?thesis using Request by (simp add: step_Requesting requests_of_request_index)
next
  case Enter
  then show ?thesis by (simp add: step_Entering_free)
next
  case (Blocked d)
  then show ?thesis by (simp add: step_Entering_held)
next
  case Test
  then show ?thesis by (simp add: step_Testing)
next
  case Leave
  then show ?thesis by (simp add: step_Leaving)
next
  case Return
  then show ?thesis by (simp add: step_Returned)
qed




lemma seen_step:
  "seen (step nx calls c s) d = Some v \<Longrightarrow>
     seen s d = Some v \<or> (pcs s c = Leaving \<and> d = c \<and> v = mem (shared s) (snd (calls c)))"
  by (cases rule: step_cases [of s c]) (auto simp: step_idle step_Requesting split: if_splits)

lemma seen_inv_step:
  assumes "requesting_inv calls s" and "seen_inv calls s"
  shows "seen_inv calls (step nx calls c s)"
  unfolding seen_inv_def
proof (intro allI impI)
  fix d v
  assume sv: "seen (step nx calls c s) d = Some v" and nonneg: "0 \<le> sint v"
  have "mem (shared s) (snd (calls d)) = v"
    using seen_step [OF sv] assms(2) nonneg unfolding seen_inv_def by blast
  then show "mem (shared (step nx calls c s)) (snd (calls d)) = v"
    using mem_step [OF assms(1), of "snd (calls d)" nx c] nonneg by simp
qed


lemma base_inv_step: "base_inv calls s \<Longrightarrow> base_inv calls (step nx calls c s)"
  by (simp add: base_inv_def lock_inv_step requesting_inv_step seen_inv_step)

lemma base_inv_run: "base_inv calls s \<Longrightarrow> base_inv calls (run nx calls sched s)"
  by (induction sched arbitrary: s) (simp_all add: base_inv_step)


lemma requests_of_run:
  assumes "base_inv calls s" and "0 \<le> sint (mem (shared s) p)"
    and "\<forall>c. fst (calls c) = k \<longrightarrow> snd (calls c) = p"
  shows "requests_of k (shared (run nx calls sched s)) = requests_of k (shared s)"
  using assms(1,2)
proof (induction sched arbitrary: s)
  case Nil
  then show ?case by simp
next
  case (Cons c sched)
  have r: "requesting_inv calls s" using Cons.prems(1) by (simp add: base_inv_def)
  have eq: "mem (shared (step nx calls c s)) p = mem (shared s) p"
    using r Cons.prems(2) by (rule mem_step)
  have "requests_of k (shared (run nx calls sched (step nx calls c s)))
          = requests_of k (shared (step nx calls c s))"
    using Cons.prems by (intro Cons.IH base_inv_step) (simp_all add: eq)
  also have "\<dots> = requests_of k (shared s)"
    using r Cons.prems(2) assms(3) by (rule requests_of_step)
  finally show ?case by simp
qed







lemma acquire_eq:
  "acquire nx k pindex w = (if sint (mem w pindex) < 0 then request_index nx k pindex w else w)"
  by (cases k) (simp_all add: getSSLCtxExIndex_def getRSAExIndex_def getSSLSessionExStrIndex_def)

lemma solo_call:
  assumes "pcs s c = Entering" and "sIndexLock s = None" and "calls c = (k, p)"
  shows "shared (run nx calls [c, c, c, c] s) = acquire nx k p (shared s)
     \<and> pcs (run nx calls [c, c, c, c] s) c = Returned
     \<and> sIndexLock (run nx calls [c, c, c, c] s) = None
     \<and> seen (run nx calls [c, c, c, c] s) c = Some (mem (acquire nx k p (shared s)) p)"
  using assms by (simp add: step_def acquire_eq Let_def)




lemma run_append: "run nx calls (xs @ ys) s = run nx calls ys (run nx calls xs s)"
  by (induction xs arbitrary: s) simp_all


















section \<open>Lemmas on the memory of strings\<close>

lemma load_str_simps:
  "load_str (h\<lparr>strs := xs\<rparr>) a = (if a < length xs then xs ! a else None)"
  "load_str (h\<lparr>words := w\<rparr>) a = load_str h a"
  "load_str (h\<lparr>stored := l\<rparr>) a = load_str h a"
  by (simp_all add: load_str_def)

lemma load_str_live: "load_str h a = Some s \<Longrightarrow> a < length (strs h)"
  by (simp add: load_str_def split: if_splits)

lemma dup_nonnull:
  assumes "words h ptr = Some (Some a)" and "load_str h a = Some s"
  shows "exDataStdStringDup h ptr = Inr (1, dup_result h ptr s)"
  using assms by (simp add: exDataStdStringDup_def new_string_def store_word_def dup_result_def)

lemma dup_result_load:
  "load_str (dup_result h ptr s) b =
     (if b = length (strs h) then Some s else load_str h b)"
  by (auto simp: dup_result_def load_str_def nth_append)

lemma delete_string_live:
  assumes "load_str h a = Some s"
  shows "delete_string h a = Inr (h\<lparr>strs := (strs h)[a := None]\<rparr>)"
  using assms by (simp add: delete_string_def)

lemma load_str_deleted:
  "load_str (h\<lparr>strs := (strs h)[a := None]\<rparr>) b = (if b = a then None else load_str h b)"
  by (simp add: load_str_def)

lemma free_sequence_releases:
  assumes "distinct (non_null ps)" and "\<forall>a \<in> set (non_null ps). load_str h a \<noteq> None"
  shows "\<exists>h'. free_sequence h ps = Inr h'
           \<and> (\<forall>b. load_str h' b = (if b \<in> set (non_null ps) then None else load_str h b))
           \<and> words h' = words h"
  using assms
proof (induction ps arbitrary: h)
  case Nil
  then show ?case by simp
next
  case (Cons p ps)
  show ?case
  proof (cases p)
    case None
    then show ?thesis
      using Cons.IH [of h] Cons.prems by (simp add: exDataStdStringFree_def)
  next
    case (Some a)
    let ?h1 = "h\<lparr>strs := (strs h)[a := None]\<rparr>"
    from Cons.prems Some obtain s where s: "load_str h a = Some s"
      by auto
    have step: "exDataStdStringFree h p = Inr ?h1"
      using Some s by (simp add: exDataStdStringFree_def delete_string_live)
    have d: "distinct (non_null ps)" and notin: "a \<notin> set (non_null ps)"
      using Cons.prems(1) Some by simp_all
    have live: "\<forall>b \<in> set (non_null ps). load_str ?h1 b \<noteq> None"
      using Cons.prems(2) Some notin by (auto simp: load_str_deleted)
    from Cons.IH [OF d live] obtain h' where
      h': "free_sequence ?h1 ps = Inr h'"
      "\<forall>b. load_str h' b = (if b \<in> set (non_null ps) then None else load_str ?h1 b)"
      "words h' = words ?h1" by blast
    have "free_sequence h (p # ps) = Inr h'" using step h'(1) by simp
    moreover have "\<forall>b. load_str h' b = (if b \<in> set (non_null (p # ps)) then None else load_str h b)"
      using h'(2) Some by (simp add: load_str_deleted)
    moreover have "words h' = words h" using h'(3) by simp
    ultimately show ?thesis by blast
  qed
qed

lemma free_sequence_nulls: "free_sequence h (replicate n None) = Inr h"
  by (induction n) (simp_all add: exDataStdStringFree_def)

lemma invoke_same: "snd (invoke a e) = e"
  by (cases a) simp_all

lemma invoke_all_same: "invoke_all as e = e"
  by (induction as arbitrary: e) (simp_all add: invoke_same)

lemma text_forms_append: "text_forms (gs @ hs) = text_forms gs @ text_forms hs"
  by (induction gs rule: text_forms.induct) simp_all

lemma text_forms_Name: "text_forms (map Name xs) = xs"
  by (induction xs) simp_all

section \<open>Allocation of indices: the claims\<close>





text \<open>
  C8, as stated: when the library cannot allocate an index, the call fails and the failure
  reaches the caller as a fatal initialization error, rather than the call returning
  normally with the storage still negative. It does not hold: with a library that answers
  -1, the call of \<^verbatim>\<open>getSSLCtxExIndex\<close> on a negative storage returns, and the storage holds
  -1 afterwards.
\<close>

theorem failed_request_counterexample:
  "sint (mem world0 0) < 0
   \<and> sint (fst (exhausted_facility SSL_CTX_index (facility world0))) < 0
   \<and> mem (getSSLCtxExIndex exhausted_facility 0 world0) 0 = - 1
   \<and> sint (mem (getSSLCtxExIndex exhausted_facility 0 world0) 0) < 0
   \<and> requests (getSSLCtxExIndex exhausted_facility 0 world0) = [(SSL_CTX_index, - 1)]"
  by (simp add: getSSLCtxExIndex_def request_index_def exhausted_facility_def world0_def
      unallocated_def)

text \<open>
  C8, amended: when the library cannot allocate an index (it answers a negative value), the
  call stores that answer in the caller's storage and returns normally; the storage is
  still negative, and the next call on it asks the library again. This holds for each of
  the three functions.
\<close>

theorem failed_request_is_stored:
  assumes "sint (mem w pindex) < 0" and "nx k (facility w) = (r, f')" and "sint r < 0"
  shows "acquire nx k pindex w
           = w\<lparr>mem := (mem w)(pindex := r), facility := f', requests := requests w @ [(k, r)]\<rparr>
     \<and> sint (mem (acquire nx k pindex w) pindex) < 0
     \<and> requests (acquire nx k pindex (acquire nx k pindex w))
           = requests w @ [(k, r), (k, fst (nx k f'))]"
  using assms by (simp add: acquire_eq request_index_def split_beta)

theorem failed_request_is_stored_witness:
  "mem (acquire exhausted_facility SSL_CTX_index 0 world0) 0 = - 1
   \<and> sint (mem (acquire exhausted_facility SSL_CTX_index 0 world0) 0) < 0
   \<and> requests (acquire exhausted_facility SSL_CTX_index 0
         (acquire exhausted_facility SSL_CTX_index 0 world0))
       = [(SSL_CTX_index, - 1), (SSL_CTX_index, - 1)]"
proof -
  have 1: "sint (mem world0 0) < 0" by (simp add: world0_def unallocated_def)
  have 2: "exhausted_facility SSL_CTX_index (facility world0) = (- 1, ())"
    by (simp add: exhausted_facility_def)
  have 3: "sint (- 1 :: int32) < 0" by simp
  note t = failed_request_is_stored [of world0 0 exhausted_facility SSL_CTX_index "- 1" "()",
      OF 1 2 3]
  have a: "mem (acquire exhausted_facility SSL_CTX_index 0 world0) 0 = - 1"
    using t [THEN conjunct1] by simp
  have b: "sint (mem (acquire exhausted_facility SSL_CTX_index 0 world0) 0) < 0"
    using t by blast
  have c: "requests (acquire exhausted_facility SSL_CTX_index 0
         (acquire exhausted_facility SSL_CTX_index 0 world0))
       = requests world0 @ [(SSL_CTX_index, - 1), (SSL_CTX_index, fst (exhausted_facility SSL_CTX_index ()))]"
    using t by blast
  have d: "requests world0 = []" "fst (exhausted_facility SSL_CTX_index ()) = - 1"
    by (simp_all add: world0_def exhausted_facility_def)
  show ?thesis using a b c unfolding d by simp
qed

section \<open>The string of a session's slot: the claims\<close>

text \<open>
  C4. The duplicate callback of the session string slot: when the word it is given holds
  the null pointer, it returns with the memory as it was, so the slot of the copy holds
  the null pointer. When the word holds the address of a live string, it makes a new
  string with the same contents at another address and puts that address in the word. The
  source string, every other string and every other word are as before, and assigning to
  either of the two strings afterwards leaves the other with the old contents.
\<close>

theorem exDataStdStringDup_copies:
  "(words h ptr = Some None \<longrightarrow> exDataStdStringDup h ptr = Inr (1, h))
   \<and> (words h ptr = Some (Some a) \<and> load_str h a = Some s \<longrightarrow>
        (\<exists>a' h'. exDataStdStringDup h ptr = Inr (1, h')
           \<and> words h' ptr = Some (Some a') \<and> a' \<noteq> a
           \<and> load_str h' a' = Some s \<and> load_str h' a = Some s
           \<and> load_str h a' = None
           \<and> (\<forall>b. b \<noteq> a' \<longrightarrow> load_str h' b = load_str h b)
           \<and> (\<forall>q. q \<noteq> ptr \<longrightarrow> words h' q = words h q)
           \<and> (\<forall>t. \<exists>h''. assign_string h' a' t = Inr h''
                  \<and> load_str h'' a' = Some t \<and> load_str h'' a = Some s)
           \<and> (\<forall>t. \<exists>h''. assign_string h' a t = Inr h''
                  \<and> load_str h'' a = Some t \<and> load_str h'' a' = Some s)))"
proof (intro conjI impI)
  assume "words h ptr = Some None"
  then show "exDataStdStringDup h ptr = Inr (1, h)" by (simp add: exDataStdStringDup_def)
next
  assume assms: "words h ptr = Some (Some a) \<and> load_str h a = Some s"
  let ?a' = "length (strs h)" and ?h' = "dup_result h ptr s"
  have lt: "a < length (strs h)" using assms by (simp add: load_str_live)
  have 1: "exDataStdStringDup h ptr = Inr (1, ?h')" using assms by (simp add: dup_nonnull)
  have 2: "words ?h' ptr = Some (Some ?a')" by (simp add: dup_result_def)
  have 3: "?a' \<noteq> a" using lt by simp
  have 4: "load_str ?h' ?a' = Some s" by (simp add: dup_result_load)
  have 5: "load_str ?h' a = Some s" using lt assms by (simp add: dup_result_load)
  have 6: "load_str h ?a' = None" by (simp add: load_str_def)
  have 7: "\<forall>b. b \<noteq> ?a' \<longrightarrow> load_str ?h' b = load_str h b" by (simp add: dup_result_load)
  have 8: "\<forall>q. q \<noteq> ptr \<longrightarrow> words ?h' q = words h q" by (simp add: dup_result_def)
  have len: "length (strs ?h') = Suc (length (strs h))" by (simp add: dup_result_def)
  have 9: "\<exists>h''. assign_string ?h' ?a' t = Inr h''
      \<and> load_str h'' ?a' = Some t \<and> load_str h'' a = Some s" for t
    using 4 5 3 lt by (simp add: assign_string_def load_str_simps len) (simp add: load_str_def len)
  have 10: "\<exists>h''. assign_string ?h' a t = Inr h''
      \<and> load_str h'' a = Some t \<and> load_str h'' ?a' = Some s" for t
    using 4 5 3 lt by (simp add: assign_string_def load_str_simps len) (simp add: load_str_def len)
  show "\<exists>a' h'. exDataStdStringDup h ptr = Inr (1, h')
           \<and> words h' ptr = Some (Some a') \<and> a' \<noteq> a
           \<and> load_str h' a' = Some s \<and> load_str h' a = Some s
           \<and> load_str h a' = None
           \<and> (\<forall>b. b \<noteq> a' \<longrightarrow> load_str h' b = load_str h b)
           \<and> (\<forall>q. q \<noteq> ptr \<longrightarrow> words h' q = words h q)
           \<and> (\<forall>t. \<exists>h''. assign_string h' a' t = Inr h''
                  \<and> load_str h'' a' = Some t \<and> load_str h'' a = Some s)
           \<and> (\<forall>t. \<exists>h''. assign_string h' a t = Inr h''
                  \<and> load_str h'' a = Some t \<and> load_str h'' a' = Some s)"
    using 1 2 3 4 5 6 7 8 9 10 by blast
qed

theorem exDataStdStringDup_copies_witness:
  "exDataStdStringDup heap0 8 = Inr (1, heap0)
   \<and> (\<exists>a' h'. exDataStdStringDup heap0 7 = Inr (1, h')
         \<and> words h' 7 = Some (Some a') \<and> a' \<noteq> 2
         \<and> load_str h' a' = Some ''tag'' \<and> load_str h' 2 = Some ''tag''
         \<and> load_str h' 0 = Some ''abc'' \<and> words h' 8 = Some None)"
proof -
  have n: "words heap0 8 = Some None" by (simp add: heap0_def)
  have w: "words heap0 7 = Some (Some 2) \<and> load_str heap0 2 = Some ''tag''"
    by (simp add: heap0_def load_str_def)
  have o: "load_str heap0 0 = Some ''abc''" "load_str heap0 3 = None"
    by (simp_all add: heap0_def load_str_def)
  from exDataStdStringDup_copies [of heap0 7 2 "''tag''"] w
  obtain a' h' where d: "exDataStdStringDup heap0 7 = Inr (1, h')"
    "words h' 7 = Some (Some a')" "a' \<noteq> 2" "load_str h' a' = Some ''tag''"
    "load_str h' 2 = Some ''tag''" "load_str heap0 a' = None"
    "\<forall>b. b \<noteq> a' \<longrightarrow> load_str h' b = load_str heap0 b"
    "\<forall>q. q \<noteq> 7 \<longrightarrow> words h' q = words heap0 q"
    by blast
  have "a' \<noteq> 0"
  proof
    assume "a' = 0"
    then show False using d(6) o(1) by simp
  qed
  then have "load_str h' 0 = Some ''abc''" using d(7) o(1) by simp
  moreover have "words h' 8 = Some None" using d(8) n by simp
  ultimately show ?thesis
    using exDataStdStringDup_copies [of heap0 8] n d by blast
qed

text \<open>
  C5. The free callback of the session string slot does nothing when the pointer is null.
  When the pointer is the address of a live string, it deletes that string, once: the
  string is gone, every other string is as before, and a further delete of the same
  address would be a fault. Null frees after it, in any number, change nothing. More
  generally a sequence of frees whose non-null pointers are live and pairwise different
  runs without a fault and leaves exactly the strings that were not freed.
\<close>

theorem exDataStdStringFree_releases:
  "exDataStdStringFree h None = Inr h
   \<and> (load_str h a \<noteq> None \<longrightarrow>
        (\<exists>h'. exDataStdStringFree h (Some a) = Inr h'
           \<and> load_str h' a = None
           \<and> (\<forall>b. b \<noteq> a \<longrightarrow> load_str h' b = load_str h b)
           \<and> free_sequence h (Some a # replicate n None) = Inr h'
           \<and> exDataStdStringFree h' (Some a) = Inl Invalid_Delete))
   \<and> (distinct (non_null ps) \<and> (\<forall>a \<in> set (non_null ps). load_str h a \<noteq> None) \<longrightarrow>
        (\<exists>h'. free_sequence h ps = Inr h'
           \<and> (\<forall>b. load_str h' b = (if b \<in> set (non_null ps) then None else load_str h b))))"
proof -
  have 1: "exDataStdStringFree h None = Inr h" by (simp add: exDataStdStringFree_def)
  have 2: "\<exists>h'. exDataStdStringFree h (Some a) = Inr h'
           \<and> load_str h' a = None
           \<and> (\<forall>b. b \<noteq> a \<longrightarrow> load_str h' b = load_str h b)
           \<and> free_sequence h (Some a # replicate n None) = Inr h'
           \<and> exDataStdStringFree h' (Some a) = Inl Invalid_Delete" if "load_str h a \<noteq> None"
  proof -
    let ?h1 = "h\<lparr>strs := (strs h)[a := None]\<rparr>"
    from that obtain s where s: "load_str h a = Some s" by blast
    have f: "exDataStdStringFree h (Some a) = Inr ?h1"
      using s by (simp add: exDataStdStringFree_def delete_string_live)
    have "load_str ?h1 a = None" by (simp add: load_str_deleted)
    moreover have "\<forall>b. b \<noteq> a \<longrightarrow> load_str ?h1 b = load_str h b"
      by (simp add: load_str_deleted)
    moreover have "free_sequence h (Some a # replicate n None) = Inr ?h1"
      using f by (simp add: free_sequence_nulls)
    moreover have "exDataStdStringFree ?h1 (Some a) = Inl Invalid_Delete"
      by (simp add: exDataStdStringFree_def delete_string_def load_str_deleted)
    ultimately show ?thesis using f by blast
  qed
  have 3: "\<exists>h'. free_sequence h ps = Inr h'
           \<and> (\<forall>b. load_str h' b = (if b \<in> set (non_null ps) then None else load_str h b))"
    if "distinct (non_null ps) \<and> (\<forall>a \<in> set (non_null ps). load_str h a \<noteq> None)"
    using free_sequence_releases [of ps h] that by blast
  show ?thesis using 1 2 3 by blast
qed

theorem exDataStdStringFree_releases_witness:
  "exDataStdStringFree heap0 None = Inr heap0
   \<and> (\<exists>h'. exDataStdStringFree heap0 (Some 2) = Inr h'
         \<and> load_str h' 2 = None \<and> load_str h' 0 = Some ''abc''
         \<and> free_sequence heap0 [Some 2, None, None] = Inr h'
         \<and> exDataStdStringFree h' (Some 2) = Inl Invalid_Delete)
   \<and> (\<exists>h'. free_sequence heap0 [Some 2, None, Some 0, None] = Inr h'
         \<and> load_str h' 0 = None \<and> load_str h' 2 = None)"
proof -
  have l: "load_str heap0 2 \<noteq> None" "load_str heap0 0 \<noteq> None" "load_str heap0 0 = Some ''abc''"
    by (simp_all add: heap0_def load_str_def)
  have r: "replicate 2 None = [None, None :: str_ptr]" by (simp add: numeral_2_eq_2)
  have d: "distinct (non_null [Some 2, None, Some 0, None])
     \<and> (\<forall>a \<in> set (non_null [Some 2, None, Some 0, None]). load_str heap0 a \<noteq> None)"
    using l by simp
  have n: "set (non_null [Some 2, None, Some 0, None]) = {0, 2}" by auto
  note t = exDataStdStringFree_releases
    [of heap0 2 2 "[Some 2, None, Some 0, None]"]
  have a: "exDataStdStringFree heap0 None = Inr heap0" using t by blast
  have b: "\<exists>h'. exDataStdStringFree heap0 (Some 2) = Inr h'
         \<and> load_str h' 2 = None \<and> load_str h' 0 = Some ''abc''
         \<and> free_sequence heap0 [Some 2, None, None] = Inr h'
         \<and> exDataStdStringFree h' (Some 2) = Inl Invalid_Delete"
  proof -
    from t l(1) obtain h' where h': "exDataStdStringFree heap0 (Some 2) = Inr h'"
      "load_str h' 2 = None" "\<forall>b. b \<noteq> 2 \<longrightarrow> load_str h' b = load_str heap0 b"
      "free_sequence heap0 (Some 2 # replicate 2 None) = Inr h'"
      "exDataStdStringFree h' (Some 2) = Inl Invalid_Delete"
      by blast
    have "load_str h' 0 = Some ''abc''" using h'(3) l(3) by simp
    then show ?thesis using h' unfolding r by blast
  qed
  have c: "\<exists>h'. free_sequence heap0 [Some 2, None, Some 0, None] = Inr h'
         \<and> load_str h' 0 = None \<and> load_str h' 2 = None"
  proof -
    from t d obtain h' where h': "free_sequence heap0 [Some 2, None, Some 0, None] = Inr h'"
      "\<forall>b. load_str h' b
         = (if b \<in> set (non_null [Some 2, None, Some 0, None]) then None else load_str heap0 b)"
      by blast
    have "load_str h' 0 = None" "load_str h' 2 = None" using h'(2) unfolding n by simp_all
    then show ?thesis using h'(1) by blast
  qed
  show ?thesis using a b c by blast
qed

text \<open>
  C10. On every input on which its behaviour is defined (\<open>ptr\<close> points to a word that holds
  the null pointer or the address of a live string), the duplicate callback returns the
  code 1. When the word holds the null pointer, the memory after the call is the memory
  before it: no word was written, and the word still holds the null pointer that the
  library put there.
\<close>

theorem exDataStdStringDup_returns_1:
  assumes "dup_input_ok h ptr"
  shows "\<exists>h'. exDataStdStringDup h ptr = Inr (1, h')
           \<and> (words h ptr = Some None \<longrightarrow>
                h' = h \<and> stored h' = stored h \<and> words h' ptr = Some None)"
  using assms
  by (auto simp: dup_input_ok_def exDataStdStringDup_def new_string_def split: option.splits)

theorem exDataStdStringDup_returns_1_witness:
  "dup_input_ok heap0 7 \<and> dup_input_ok heap0 8
   \<and> (\<exists>h'. exDataStdStringDup heap0 7 = Inr (1, h'))
   \<and> (\<exists>h'. exDataStdStringDup heap0 8 = Inr (1, h') \<and> h' = heap0 \<and> stored h' = [])"
proof -
  have ok: "dup_input_ok heap0 7" "dup_input_ok heap0 8"
    by (simp_all add: dup_input_ok_def heap0_def load_str_def)
  have n: "words heap0 8 = Some None" "stored heap0 = []" by (simp_all add: heap0_def)
  show ?thesis
    using ok n exDataStdStringDup_returns_1 [OF ok(1)] exDataStdStringDup_returns_1 [OF ok(2)]
    by auto
qed

section \<open>Certificate fields: the claims\<close>

text \<open>
  C6. \<^verbatim>\<open>getSubjectAltName\<close> returns absent when the certificate has no Subject Alternative
  Name extension, which is not the empty list. When the extension is there and decodes, it
  returns the textual forms of the general names in the order of the extension, leaving out
  the malformed entries and going on after them: an extension with no entry gives the empty
  list, one with well-formed entries only gives all of them in order. When the extension
  does not decode at all, it returns absent.
\<close>

theorem getSubjectAltName_extracts:
  "(map_of (extensions cert) NID_subject_alt_name = None \<longrightarrow>
      getSubjectAltName cert = None \<and> getSubjectAltName cert \<noteq> Some [])
   \<and> (map_of (extensions cert) NID_subject_alt_name = Some Undecodable \<longrightarrow>
      getSubjectAltName cert = None)
   \<and> (map_of (extensions cert) NID_subject_alt_name = Some (General_names names) \<longrightarrow>
      getSubjectAltName cert = Some (text_forms names))
   \<and> (map_of (extensions cert) NID_subject_alt_name = Some (General_names []) \<longrightarrow>
      getSubjectAltName cert = Some [])
   \<and> (map_of (extensions cert) NID_subject_alt_name = Some (General_names (map Name xs)) \<longrightarrow>
      getSubjectAltName cert = Some xs)
   \<and> text_forms (gs @ Name x # hs) = text_forms gs @ x # text_forms hs
   \<and> text_forms (gs @ Malformed # hs) = text_forms gs @ text_forms hs"
  by (simp add: getSubjectAltName_def text_forms_append text_forms_Name)

theorem getSubjectAltName_extracts_witness:
  "getSubjectAltName cert_bare = None
   \<and> getSubjectAltName cert_example = Some [''DNS:a.com'', ''DNS:b.com'']"
proof -
  have b: "map_of (extensions cert_bare) NID_subject_alt_name = None"
    by (simp add: cert_bare_def)
  have e: "map_of (extensions cert_example) NID_subject_alt_name
      = Some (General_names [Name ''DNS:a.com'', Malformed, Name ''DNS:b.com''])"
    by (simp add: cert_example_def)
  show ?thesis
    using getSubjectAltName_extracts [of cert_bare] b
      getSubjectAltName_extracts
        [of cert_example "[Name ''DNS:a.com'', Malformed, Name ''DNS:b.com'']"] e
    by simp
qed

text \<open>
  C7. \<^verbatim>\<open>getCommonName\<close> returns the value of the Common Name attribute when the subject of
  the certificate has one and it is text, and absent in every other case: no subject, no
  Common Name attribute in the subject, or a value that is not text. Each case is a
  returned value; none is an error.
\<close>

theorem getCommonName_extracts:
  "(subject cert = None \<longrightarrow> getCommonName cert = None)
   \<and> (subject cert = Some attributes \<and> map_of attributes NID_commonName = None \<longrightarrow>
        getCommonName cert = None)
   \<and> (subject cert = Some attributes \<and> map_of attributes NID_commonName = Some Not_text \<longrightarrow>
        getCommonName cert = None)
   \<and> (subject cert = Some attributes \<and> map_of attributes NID_commonName = Some (Text cn) \<longrightarrow>
        getCommonName cert = Some cn)"
  by (simp add: getCommonName_def)

theorem getCommonName_extracts_witness:
  "getCommonName cert_bare = None \<and> getCommonName cert_example = Some ''example.com''"
proof -
  have b: "subject cert_bare = None" by (simp add: cert_bare_def)
  have e: "subject cert_example
      = Some [([2, 5, 4, 6], Text ''US''), (NID_commonName, Text ''example.com'')]
    \<and> map_of [([2, 5, 4, 6], Text ''US''), (NID_commonName, Text ''example.com'')]
        NID_commonName = Some (Text ''example.com'')"
    by (simp add: cert_example_def NID_commonName_def)
  show ?thesis
    using getCommonName_extracts [of cert_bare] b
      getCommonName_extracts [of cert_example
        "[([2, 5, 4, 6], Text ''US''), (NID_commonName, Text ''example.com'')]"
        "''example.com''"] e
    by blast
qed

section \<open>SSLException: the claim\<close>

text \<open>
  C9. An \<^verbatim>\<open>SSLException\<close> constructed with an error category, a latency and a number of
  bytes read reports these three values through \<^verbatim>\<open>getError\<close>, \<^verbatim>\<open>getLatency\<close> and
  \<^verbatim>\<open>getBytesRead\<close>. A call of an accessor leaves the object as it was, so after any sequence
  of such calls the accessors report the same three values; so it is for the exception
  constructed with TIMEOUT, 500 ms and 1024 bytes.
\<close>

theorem SSLException_accessors:
  "getError (SSLException_new error latency bytesRead) = error
   \<and> getLatency (SSLException_new error latency bytesRead) = latency
   \<and> getBytesRead (SSLException_new error latency bytesRead) = bytesRead
   \<and> snd (invoke a e) = e
   \<and> getError (invoke_all as (SSLException_new error latency bytesRead)) = error
   \<and> getLatency (invoke_all as (SSLException_new error latency bytesRead)) = latency
   \<and> getBytesRead (invoke_all as (SSLException_new error latency bytesRead)) = bytesRead
   \<and> fst (invoke GetError (SSLException_new TIMEOUT 500 1024)) = Error TIMEOUT
   \<and> fst (invoke GetLatency (SSLException_new TIMEOUT 500 1024)) = Latency 500
   \<and> fst (invoke GetBytesRead (SSLException_new TIMEOUT 500 1024)) = BytesRead 1024"
  by (simp add: invoke_same invoke_all_same getError_def getLatency_def getBytesRead_def
      SSLException_new_def)

end
